theory Spec2Isabelle
  imports Main "HOL-Library.Word" "HOL-Library.Multiset"
begin

unbundle bit_operations_syntax

section \<open>Errors\<close>

text \<open>
  Every error return and every run-time panic of the Go code is a value of this type.
  \<open>IOError\<close> stands for the wrapped file-system and engine errors, whose text comes
  from outside the repository.
\<close>

datatype error =
    IOError string
  | FailedToParseFile string
  | SyntaxError string
  | RangeError string
  | TooManySnapshots
  | AlreadyBootstrapped
  | SliceBoundsPanic

section \<open>rocksdb/types.go\<close>

type_synonym byte = "8 word"
type_synonym uint64 = "64 word"

subsection \<open>ValueType\<close>

type_synonym ValueType = "8 word"

definition TypeDeletion :: ValueType where "TypeDeletion = 0"
definition TypeValue :: ValueType where "TypeValue = 1"
definition TypeMerge :: ValueType where "TypeMerge = 2"

definition IsValue :: "ValueType \<Rightarrow> bool" where
  "IsValue vt = (vt \<le> TypeMerge)"

subsection \<open>Byte order\<close>

text \<open>
  \<open>rocksEndian\<close> is declared in a file that is not part of the sources at hand. It is
  one of the two byte orders of Go's \<open>encoding/binary\<close>, so it is a parameter of every
  function that uses it, and the theorems hold for both values.
  \<open>Uint64\<close> and \<open>PutUint64\<close> panic on fewer than eight bytes; every call below passes
  exactly eight, which the callers establish first.
\<close>

datatype ByteOrder = LittleEndian | BigEndian

fun Uint64 :: "ByteOrder \<Rightarrow> byte list \<Rightarrow> uint64" where
  "Uint64 LittleEndian b =
     (ucast (b ! 0) OR push_bit 8 (ucast (b ! 1)) OR push_bit 16 (ucast (b ! 2)) OR
      push_bit 24 (ucast (b ! 3)) OR push_bit 32 (ucast (b ! 4)) OR
      push_bit 40 (ucast (b ! 5)) OR push_bit 48 (ucast (b ! 6)) OR
      push_bit 56 (ucast (b ! 7)))"
| "Uint64 BigEndian b =
     (ucast (b ! 7) OR push_bit 8 (ucast (b ! 6)) OR push_bit 16 (ucast (b ! 5)) OR
      push_bit 24 (ucast (b ! 4)) OR push_bit 32 (ucast (b ! 3)) OR
      push_bit 40 (ucast (b ! 2)) OR push_bit 48 (ucast (b ! 1)) OR
      push_bit 56 (ucast (b ! 0)))"

fun PutUint64 :: "ByteOrder \<Rightarrow> uint64 \<Rightarrow> byte list" where
  "PutUint64 LittleEndian v =
     [ucast v, ucast (drop_bit 8 v), ucast (drop_bit 16 v), ucast (drop_bit 24 v),
      ucast (drop_bit 32 v), ucast (drop_bit 40 v), ucast (drop_bit 48 v),
      ucast (drop_bit 56 v)]"
| "PutUint64 BigEndian v =
     [ucast (drop_bit 56 v), ucast (drop_bit 48 v), ucast (drop_bit 40 v),
      ucast (drop_bit 32 v), ucast (drop_bit 24 v), ucast (drop_bit 16 v),
      ucast (drop_bit 8 v), ucast v]"

subsection \<open>Comparator\<close>



subsection \<open>InternalKey\<close>

record InternalKey =
  UserKey :: "byte list"
  SequenceNumber :: uint64
  ValueType :: ValueType

definition packSeqAndType :: "InternalKey \<Rightarrow> uint64" where
  "packSeqAndType ikey = push_bit 8 (SequenceNumber ikey) OR ucast (ValueType ikey)"

definition unpackSeqAndType :: "InternalKey \<Rightarrow> uint64 \<Rightarrow> InternalKey" where
  "unpackSeqAndType ikey pack =
     ikey\<lparr>ValueType := ucast (pack AND 0xff), SequenceNumber := drop_bit 8 pack\<rparr>"

definition Encode :: "ByteOrder \<Rightarrow> InternalKey \<Rightarrow> byte list" where
  "Encode rocksEndian ikey = UserKey ikey @ PutUint64 rocksEndian (packSeqAndType ikey)"

text \<open>
  \<open>Decode\<close> overwrites its receiver: the old user key is truncated to length zero and the
  prefix of the encoding is appended to it. \<open>encoded[0:userKeyLen]\<close> panics when the
  encoding is shorter than eight bytes.
\<close>

definition Decode :: "ByteOrder \<Rightarrow> InternalKey \<Rightarrow> byte list \<Rightarrow> error + InternalKey" where
  "Decode rocksEndian ikey encoded =
     (if length encoded < 8 then Inl SliceBoundsPanic
      else
        let userKeyLen = length encoded - 8;
            ikey1 = ikey\<lparr>UserKey := take 0 (UserKey ikey) @ take userKeyLen encoded\<rparr>
        in Inr (unpackSeqAndType ikey1 (Uint64 rocksEndian (drop userKeyLen encoded))))"


section \<open>Go library functions used by the snapshot manager\<close>

text \<open>
  \<open>strings.HasSuffix\<close>, \<open>strings.HasPrefix\<close>, \<open>strings.Split\<close> with the one-byte
  separator the source passes, and \<open>strconv.ParseUint\<close> for base 10 and 64 bits. Go
  strings are byte sequences, as \<open>string\<close> is here.
\<close>

definition HasSuffix :: "string \<Rightarrow> string \<Rightarrow> bool" where
  "HasSuffix s suffix =
     (length suffix \<le> length s \<and> drop (length s - length suffix) s = suffix)"

definition HasPrefix :: "string \<Rightarrow> string \<Rightarrow> bool" where
  "HasPrefix s prefix = (length prefix \<le> length s \<and> take (length prefix) s = prefix)"

fun Split :: "string \<Rightarrow> char \<Rightarrow> string list" where
  "Split [] sep = [[]]"
| "Split (c # cs) sep =
     (if c = sep then [] # Split cs sep
      else (case Split cs sep of [] \<Rightarrow> [[c]] | w # ws \<Rightarrow> (c # w) # ws))"

text \<open>
  \<open>ParseUint\<close> reads the digits from the left into a 64-bit accumulator. A byte that is
  not a decimal digit is a syntax error; an accumulator at or above the cutoff
  \<open>(2 ^ 64 - 1) div 10 + 1\<close>, or an addition that wraps around, is a range error.
\<close>

fun ParseUint_loop :: "string \<Rightarrow> string \<Rightarrow> uint64 \<Rightarrow> error + uint64" where
  "ParseUint_loop s0 [] n = Inr n"
| "ParseUint_loop s0 (c # cs) n =
     (let b = (of_char c :: nat) in
      if b < 48 \<or> 57 < b then Inl (SyntaxError s0)
      else if 1844674407370955162 \<le> n then Inl (RangeError s0)
      else
        let n10 = n * 10;
            n1 = n10 + of_nat (b - 48)
        in if n1 < n10 then Inl (RangeError s0) else ParseUint_loop s0 cs n1)"

definition ParseUint :: "string \<Rightarrow> error + uint64" where
  "ParseUint s = (if s = [] then Inl (SyntaxError s) else ParseUint_loop s s 0)"

text \<open>
  \<open>insertionSort_func\<close> is the insertion sort of Go's \<open>sort\<close> package, driven by the
  caller's \<open>less\<close> closure: each element in turn is swapped towards the front while it is
  \<open>less\<close> than its left neighbour. \<open>sift\<close> does this for one element; the sorted prefix
  is held in reverse, nearest neighbour first. \<open>sort.Slice\<close> runs it on slices of at
  most twelve elements.
\<close>

fun sift :: "('a \<Rightarrow> 'a \<Rightarrow> bool) \<Rightarrow> 'a \<Rightarrow> 'a list \<Rightarrow> 'a list" where
  "sift lt x [] = [x]"
| "sift lt x (p # ps) = (if lt x p then p # sift lt x ps else x # p # ps)"

definition insertionSort_func :: "('a \<Rightarrow> 'a \<Rightarrow> bool) \<Rightarrow> 'a list \<Rightarrow> 'a list" where
  "insertionSort_func lt xs = rev (foldl (\<lambda>sorted x. sift lt x sorted) [] xs)"



section \<open>raftstore: the snapshot manager\<close>

subsection \<open>Data\<close>

type_synonym SnapEntry = int

definition SnapEntryGenerating :: SnapEntry where "SnapEntryGenerating = 1"
definition SnapEntrySending :: SnapEntry where "SnapEntrySending = 2"
definition SnapEntryReceiving :: SnapEntry where "SnapEntryReceiving = 3"
definition SnapEntryApplying :: SnapEntry where "SnapEntryApplying = 4"

text \<open>
  Modelled from the spec: the struct declarations \<open>SnapKey\<close> and \<open>SnapKeyWithSending\<close>
  are in a file that is not at hand; the fields are the ones the source reads and
  writes (\<open>key.SnapKey.RegionID\<close>, \<open>key.IsSending\<close>) and the data model names.
\<close>

record SnapKey =
  RegionID :: uint64
  Term :: uint64
  Index :: uint64

record SnapKeyWithSending =
  SnapKey :: SnapKey
  IsSending :: bool

text \<open>What \<open>os.FileInfo\<close> gives the source: name, directory flag, size, modification time.\<close>

record FileInfo =
  Name :: string
  IsDir :: bool
  Size :: uint64
  ModTime :: int

text \<open>
  Modelled from the spec: the \<open>Snapshot\<close> interface and its implementation are not at
  hand. A handle represents one on-disk snapshot artifact and exposes its path, its
  metadata (or the error of reading it), an existence check and deletion. \<open>TotalSize\<close>
  is the number of bytes of finalized data that the size counter holds for the artifact.
\<close>

record Snapshot =
  Path :: string
  Meta :: "error + FileInfo"
  Exists :: bool
  TotalSize :: uint64

text \<open>
  The manager. \<open>snapSize\<close> is the shared \<open>int64\<close> counter, kept as its 64 bits;
  \<open>router\<close> is \<open>None\<close> for a nil router and otherwise counts the stats messages sent to
  the store; the rate limiter is never read by the functions below and is left out.
  \<open>deleted\<close> is not a Go field: it records, in order, the handles on which
  \<open>Snapshot.Delete\<close> was called, which is how the file system's part of the state is
  observed.
\<close>

record SnapManager =
  base :: string
  snapSize :: uint64
  registry :: "SnapKey \<rightharpoonup> SnapEntry list"
  router :: "nat option"
  MaxTotalSize :: uint64
  deleted :: "Snapshot list"

record snapWithModTime =
  swm_key :: SnapKey
  swm_snap :: Snapshot
  swm_modTime :: int

text \<open>
  What lies outside the manager during one call: the answer of \<open>ioutil.ReadDir\<close> on the
  base directory, the constructors of role-bound handles and the file-name constants,
  none of which is declared in the sources at hand, and the library's \<open>sort.Slice\<close> as
  the eviction pass calls it, on its candidates. Snapshots can have equal modification
  times, so the order of the candidates depends on which sorted arrangement the library
  returns; \<open>sortSlice\<close> stands for the library function, and the properties of the pass
  are proved for every function that meets \<open>sort_Slice_contract\<close>.
\<close>

record Env =
  ReadDir :: "error + FileInfo list"
  NewSnapForSending :: "SnapKey \<Rightarrow> error + Snapshot"
  NewSnapForBuilding :: "SnapKey \<Rightarrow> error + Snapshot"
  metaFileSuffix :: string
  snapGenPrefix :: string
  sortSlice ::
    "(snapWithModTime \<Rightarrow> snapWithModTime \<Rightarrow> bool) \<Rightarrow> snapWithModTime list
       \<Rightarrow> snapWithModTime list"

record SnapManagerBuilder =
  maxTotalSize :: uint64

subsection \<open>Construction\<close>

definition Build :: "SnapManagerBuilder \<Rightarrow> string \<Rightarrow> nat option \<Rightarrow> SnapManager" where
  "Build smb path rt =
     \<lparr>base = path, snapSize = 0, registry = Map.empty, router = rt,
      MaxTotalSize = (if 0 < maxTotalSize smb then maxTotalSize smb else - 1),
      deleted = []\<rparr>"

definition NewSnapManager :: "string \<Rightarrow> nat option \<Rightarrow> SnapManager" where
  "NewSnapManager path rt = Build \<lparr>maxTotalSize = 0\<rparr> path rt"

definition notifyStats :: "SnapManager \<Rightarrow> SnapManager" where
  "notifyStats sm = (case router sm of None \<Rightarrow> sm | Some n \<Rightarrow> sm\<lparr>router := Some (Suc n)\<rparr>)"

subsection \<open>The registry\<close>

definition HasRegistered :: "SnapManager \<Rightarrow> SnapKey \<Rightarrow> bool" where
  "HasRegistered sm k = (case registry sm k of None \<Rightarrow> False | Some entries \<Rightarrow> True)"

definition Register :: "SnapKey \<Rightarrow> SnapEntry \<Rightarrow> SnapManager \<Rightarrow> SnapManager" where
  "Register k entry sm =
     (case registry sm k of
        Some entries \<Rightarrow>
          if entry \<in> set entries then sm
          else notifyStats (sm\<lparr>registry := (registry sm)(k \<mapsto> entries @ [entry])\<rparr>)
      | None \<Rightarrow> notifyStats (sm\<lparr>registry := (registry sm)(k \<mapsto> [] @ [entry])\<rparr>))"

text \<open>
  The loop of \<open>Deregister\<close> looks for the first index \<open>i\<close> with \<open>entries[i] == entry\<close> and
  replaces the list by \<open>append(entries[:i], entries[i+1:]...)\<close>.
\<close>

fun first_index :: "SnapEntry list \<Rightarrow> SnapEntry \<Rightarrow> nat option" where
  "first_index [] entry = None"
| "first_index (e # es) entry =
     (if e = entry then Some 0 else map_option Suc (first_index es entry))"

definition Deregister :: "SnapKey \<Rightarrow> SnapEntry \<Rightarrow> SnapManager \<Rightarrow> SnapManager" where
  "Deregister k entry sm =
     (case registry sm k of
        Some entries \<Rightarrow>
          (case first_index entries entry of
             Some i \<Rightarrow>
               let entries1 = take i entries @ drop (i + 1) entries
               in if 0 < length entries1
                  then notifyStats (sm\<lparr>registry := (registry sm)(k \<mapsto> entries1)\<rparr>)
                  else notifyStats (sm\<lparr>registry := (registry sm)(k := None)\<rparr>)
           | None \<Rightarrow> sm)
      | None \<Rightarrow> sm)"

subsection \<open>Deleting a snapshot\<close>

text \<open>
  Modelled from the spec: \<open>Snapshot.Delete\<close> deletes the underlying files and
  decrements the size counter.
\<close>

definition Delete :: "Snapshot \<Rightarrow> SnapManager \<Rightarrow> SnapManager" where
  "Delete s sm = sm\<lparr>snapSize := snapSize sm - TotalSize s, deleted := deleted sm @ [s]\<rparr>"

definition DeleteSnapshot ::
  "SnapKey \<Rightarrow> Snapshot \<Rightarrow> bool \<Rightarrow> SnapManager \<Rightarrow> bool \<times> SnapManager" where
  "DeleteSnapshot k snapshot checkEntry sm =
     (if checkEntry then
        (case registry sm k of
           Some e \<Rightarrow> if 0 < length e then (False, sm) else (True, Delete snapshot sm)
         | None \<Rightarrow> (True, Delete snapshot sm))
      else
        (case registry sm k of
           Some e \<Rightarrow> (False, sm)
         | None \<Rightarrow> (True, Delete snapshot sm)))"

subsection \<open>Listing idle snapshots\<close>

text \<open>
  The body of the loop of \<open>ListIdleSnap\<close> for one directory entry: an error aborts the
  listing, \<open>None\<close> is a \<open>continue\<close>, and \<open>Some key\<close> is appended to the results.
\<close>

definition ListIdleSnap_step ::
  "Env \<Rightarrow> SnapManager \<Rightarrow> FileInfo \<Rightarrow> error + SnapKeyWithSending option" where
  "ListIdleSnap_step env sm fi =
     (if IsDir fi then Inr None
      else if \<not> HasSuffix (Name fi) (metaFileSuffix env) then Inr None
      else
        let name = take (length (Name fi) - length (metaFileSuffix env)) (Name fi);
            sending = HasPrefix name (snapGenPrefix env);
            numberStrs = Split name CHR ''_''
        in if length numberStrs \<noteq> 4 then Inl (FailedToParseFile name)
           else
             (case ParseUint (numberStrs ! 1) of
                Inl err \<Rightarrow> Inl err
              | Inr regionID \<Rightarrow>
             (case ParseUint (numberStrs ! 2) of
                Inl err \<Rightarrow> Inl err
              | Inr term \<Rightarrow>
             (case ParseUint (numberStrs ! 3) of
                Inl err \<Rightarrow> Inl err
              | Inr index \<Rightarrow>
                  let k = \<lparr>RegionID = regionID, Term = term, Index = index\<rparr>
                  in if registry sm k \<noteq> None then Inr None
                     else Inr (Some \<lparr>SnapKey = k, IsSending = sending\<rparr>)))))"

fun ListIdleSnap_loop ::
  "Env \<Rightarrow> SnapManager \<Rightarrow> FileInfo list \<Rightarrow> SnapKeyWithSending list
     \<Rightarrow> error + SnapKeyWithSending list" where
  "ListIdleSnap_loop env sm [] results = Inr results"
| "ListIdleSnap_loop env sm (fi # fis) results =
     (case ListIdleSnap_step env sm fi of
        Inl err \<Rightarrow> Inl err
      | Inr None \<Rightarrow> ListIdleSnap_loop env sm fis results
      | Inr (Some k) \<Rightarrow> ListIdleSnap_loop env sm fis (results @ [k]))"

text \<open>
  The closure that \<open>ListIdleSnap\<close> passes to \<open>sort.Slice\<close>. Of two different entries
  exactly one is \<open>less\<close> than the other, so the results have one sorted arrangement,
  whatever the sorting algorithm (\<open>sorted_listing_unique\<close> below); the insertion sort
  computes it.
\<close>

definition ListIdleSnap_less :: "SnapKeyWithSending \<Rightarrow> SnapKeyWithSending \<Rightarrow> bool" where
  "ListIdleSnap_less ri rj =
     (let keyI = SnapKey ri; keyJ = SnapKey rj
      in if RegionID keyI = RegionID keyJ then
           if Term keyI = Term keyJ then
             if Index keyI = Index keyJ then \<not> IsSending ri
             else Index keyI < Index keyJ
           else Term keyI < Term keyJ
         else RegionID keyI < RegionID keyJ)"

definition ListIdleSnap :: "Env \<Rightarrow> SnapManager \<Rightarrow> error + SnapKeyWithSending list" where
  "ListIdleSnap env sm =
     (case ReadDir env of
        Inl err \<Rightarrow> Inl err
      | Inr fis \<Rightarrow>
          (case ListIdleSnap_loop env sm fis [] of
             Inl err \<Rightarrow> Inl err
           | Inr results \<Rightarrow> Inr (insertionSort_func ListIdleSnap_less results)))"

subsection \<open>Quota eviction\<close>

definition GetTotalSnapSize :: "SnapManager \<Rightarrow> uint64" where
  "GetTotalSnapSize sm = snapSize sm"

definition GetSnapshotForSending :: "Env \<Rightarrow> SnapKey \<Rightarrow> error + Snapshot" where
  "GetSnapshotForSending env snapKey = NewSnapForSending env snapKey"

text \<open>The first loop of \<open>deleteOldIdleSnaps\<close>, which opens the candidates.\<close>

fun collect_snaps ::
  "Env \<Rightarrow> SnapKeyWithSending list \<Rightarrow> snapWithModTime list \<Rightarrow> error + snapWithModTime list"
  where
  "collect_snaps env [] snaps = Inr snaps"
| "collect_snaps env (idleSnap # rest) snaps =
     (if \<not> IsSending idleSnap then collect_snaps env rest snaps
      else
        (case GetSnapshotForSending env (SnapKey idleSnap) of
           Inl err \<Rightarrow> collect_snaps env rest snaps
         | Inr s \<Rightarrow>
             (case Meta s of
                Inl err \<Rightarrow> Inl err
              | Inr fi \<Rightarrow>
                  collect_snaps env rest
                    (snaps @ [\<lparr>swm_key = SnapKey idleSnap, swm_snap = s,
                               swm_modTime = ModTime fi\<rparr>]))))"

definition modTime_Before :: "snapWithModTime \<Rightarrow> snapWithModTime \<Rightarrow> bool" where
  "modTime_Before si sj = (swm_modTime si < swm_modTime sj)"

text \<open>
  The candidates of an eviction pass as \<open>sort.Slice\<close> leaves them, or the error that
  aborts the pass.
\<close>

definition eviction_candidates :: "Env \<Rightarrow> SnapManager \<Rightarrow> error + snapWithModTime list" where
  "eviction_candidates env sm =
     (case ListIdleSnap env sm of
        Inl err \<Rightarrow> Inl err
      | Inr idleSnaps \<Rightarrow>
          (case collect_snaps env idleSnaps [] of
             Inl err \<Rightarrow> Inl err
           | Inr snaps \<Rightarrow> Inr (sortSlice env modTime_Before snaps)))"

text \<open>The second loop: delete the oldest candidate while the total size is over quota.\<close>

fun evict_loop :: "snapWithModTime list \<Rightarrow> SnapManager \<Rightarrow> error option \<times> SnapManager" where
  "evict_loop [] sm =
     (if MaxTotalSize sm < GetTotalSnapSize sm then (Some TooManySnapshots, sm)
      else (None, sm))"
| "evict_loop (oldest # rest) sm =
     (if MaxTotalSize sm < GetTotalSnapSize sm
      then evict_loop rest (snd (DeleteSnapshot (swm_key oldest) (swm_snap oldest) False sm))
      else (None, sm))"

definition deleteOldIdleSnaps :: "Env \<Rightarrow> SnapManager \<Rightarrow> error option \<times> SnapManager" where
  "deleteOldIdleSnaps env sm =
     (case eviction_candidates env sm of
        Inl err \<Rightarrow> (Some err, sm)
      | Inr snaps \<Rightarrow> evict_loop snaps sm)"


subsection \<open>Sequences of registry operations\<close>

datatype RegistryOp = OpRegister SnapKey SnapEntry | OpDeregister SnapKey SnapEntry

fun apply_op :: "RegistryOp \<Rightarrow> SnapManager \<Rightarrow> SnapManager" where
  "apply_op (OpRegister k entry) sm = Register k entry sm"
| "apply_op (OpDeregister k entry) sm = Deregister k entry sm"

definition run_ops :: "RegistryOp list \<Rightarrow> SnapManager \<Rightarrow> SnapManager" where
  "run_ops ops sm = fold apply_op ops sm"

text \<open>The invariant of the registry: no key has an empty entry list or a repeated entry.\<close>

definition registry_inv :: "(SnapKey \<rightharpoonup> SnapEntry list) \<Rightarrow> bool" where
  "registry_inv reg = (\<forall>k es. reg k = Some es \<longrightarrow> es \<noteq> [] \<and> distinct es)"

subsection \<open>Notions used to state the properties\<close>

text \<open>
  The order of the spec on snapshot keys: by region, then term, then index. An idle
  entry \<open>x\<close> may stand before \<open>y\<close> in a listing when its key is smaller, or the keys
  are equal and it is not a sending-side entry before a receiving-side one.
\<close>

definition SnapKey_less :: "SnapKey \<Rightarrow> SnapKey \<Rightarrow> bool" where
  "SnapKey_less a b =
     (RegionID a < RegionID b \<or>
      (RegionID a = RegionID b \<and>
       (Term a < Term b \<or> (Term a = Term b \<and> Index a < Index b))))"

definition idle_before :: "SnapKeyWithSending \<Rightarrow> SnapKeyWithSending \<Rightarrow> bool" where
  "idle_before x y =
     (SnapKey_less (SnapKey x) (SnapKey y) \<or>
      (SnapKey x = SnapKey y \<and> (IsSending y \<or> \<not> IsSending x)))"

text \<open>The bytes that deleting a list of candidates gives back to the size counter.\<close>

definition freed :: "snapWithModTime list \<Rightarrow> uint64" where
  "freed snaps = sum_list (map (\<lambda>c. TotalSize (swm_snap c)) snaps)"

text \<open>The manager after the first \<open>n\<close> candidates of a list have been deleted.\<close>

definition after_deleting :: "nat \<Rightarrow> snapWithModTime list \<Rightarrow> SnapManager \<Rightarrow> SnapManager" where
  "after_deleting n snaps sm =
     sm\<lparr>snapSize := snapSize sm - freed (take n snaps),
        deleted := deleted sm @ map swm_snap (take n snaps)\<rparr>"

subsection \<open>A concrete scenario\<close>

text \<open>
  A base directory with three sending-side snapshots of 100 bytes each, for the regions
  1, 2 and 3, modified at the times 30, 10 and 20, and a receiving-side snapshot for
  region 1. The manager has a quota of 250 bytes and its counter stands at 300. There
  are three candidates, so the library sorts them by insertion.
\<close>

definition example_key :: "uint64 \<Rightarrow> SnapKey" where
  "example_key r = \<lparr>RegionID = r, Term = 1, Index = 1\<rparr>"

definition example_file :: "string \<Rightarrow> int \<Rightarrow> FileInfo" where
  "example_file n t = \<lparr>Name = n, IsDir = False, Size = 10, ModTime = t\<rparr>"

definition example_snap :: "string \<Rightarrow> int \<Rightarrow> Snapshot" where
  "example_snap p t =
     \<lparr>Path = p, Meta = Inr (example_file (p @ ''.meta'') t), Exists = True, TotalSize = 100\<rparr>"

definition example_env :: Env where
  "example_env =
     \<lparr>ReadDir = Inr [example_file ''gen_1_1_1.meta'' 30, example_file ''gen_1_1_1_default.sst'' 30,
                     example_file ''gen_2_1_1.meta'' 10, example_file ''gen_3_1_1.meta'' 20,
                     example_file ''rev_1_1_1.meta'' 40],
      NewSnapForSending =
        (\<lambda>k. if RegionID k = 1 then Inr (example_snap ''gen_1_1_1'' 30)
             else if RegionID k = 2 then Inr (example_snap ''gen_2_1_1'' 10)
             else Inr (example_snap ''gen_3_1_1'' 20)),
      NewSnapForBuilding =
        (\<lambda>k. Inr \<lparr>Path = ''gen_9_1_1'', Meta = Inl (IOError ''no meta file''),
                   Exists = False, TotalSize = 0\<rparr>),
      metaFileSuffix = ''.meta'', snapGenPrefix = ''gen'',
      sortSlice = insertionSort_func\<rparr>"

definition example_sm :: SnapManager where
  "example_sm = (Build \<lparr>maxTotalSize = 250\<rparr> ''snap'' None)\<lparr>snapSize := 300\<rparr>"

text \<open>The same directory when the sending handle of region 2 cannot be opened.\<close>

definition example_env_open_fails :: Env where
  "example_env_open_fails =
     example_env\<lparr>NewSnapForSending :=
       (\<lambda>k. if RegionID k = 2 then Inl (IOError ''open gen_2_1_1'')
            else NewSnapForSending example_env k)\<rparr>"

text \<open>The same directory when the metadata of the handle of region 2 cannot be read.\<close>

definition example_env_meta_fails :: Env where
  "example_env_meta_fails =
     example_env\<lparr>NewSnapForSending :=
       (\<lambda>k. if RegionID k = 2
            then Inr ((example_snap ''gen_2_1_1'' 10)\<lparr>Meta := Inl (IOError ''stat gen_2_1_1'')\<rparr>)
            else NewSnapForSending example_env k)\<rparr>"

section \<open>raftstore: bootstrapping a store\<close>

text \<open>
  Modelled from the spec: \<open>BootstrapStore\<close> is called by the test at hand but its
  source is not. The spec says: it fails with an "already bootstrapped" error if the
  store identity key already exists; otherwise it writes it. The engines are the
  key-value engine and the raft engine, each a map from keys to values; the identity
  key and the encoding of the identity are parameters.
\<close>

record Engines =
  kv :: "byte list \<rightharpoonup> byte list"
  raft :: "byte list \<rightharpoonup> byte list"

record BootstrapEnv =
  storeIdentKey :: "byte list"
  encodeStoreIdent :: "uint64 \<Rightarrow> uint64 \<Rightarrow> byte list"

definition BootstrapStore ::
  "BootstrapEnv \<Rightarrow> Engines \<Rightarrow> uint64 \<Rightarrow> uint64 \<Rightarrow> error option \<times> Engines" where
  "BootstrapStore benv engines clusterID storeID =
     (if kv engines (storeIdentKey benv) \<noteq> None then (Some AlreadyBootstrapped, engines)
      else (None, engines\<lparr>kv := (kv engines)(storeIdentKey benv \<mapsto>
                                  encodeStoreIdent benv clusterID storeID)\<rparr>))"

section \<open>Properties of the internal key codec\<close>

subsection \<open>Bytes of a 64-bit word\<close>

lemma low_byte_split:
  "(ucast (ucast w :: byte) :: uint64) OR push_bit 8 (drop_bit 8 w) = w"
  apply (rule bit_word_eqI)
  subgoal for n by (cases "n < 8") (auto simp add: bit_simps)
  done

lemma top_byte: "(ucast (ucast (drop_bit 56 w) :: byte) :: uint64) = drop_bit 56 w"
  by (rule bit_word_eqI) (auto simp add: bit_simps dest: bit_imp_le_length)

lemma bytes_join:
  "(ucast (ucast v :: byte) :: uint64) OR
   push_bit 8 (ucast (ucast (drop_bit 8 v) :: byte)) OR
   push_bit 16 (ucast (ucast (drop_bit 16 v) :: byte)) OR
   push_bit 24 (ucast (ucast (drop_bit 24 v) :: byte)) OR
   push_bit 32 (ucast (ucast (drop_bit 32 v) :: byte)) OR
   push_bit 40 (ucast (ucast (drop_bit 40 v) :: byte)) OR
   push_bit 48 (ucast (ucast (drop_bit 48 v) :: byte)) OR
   push_bit 56 (ucast (ucast (drop_bit 56 v) :: byte)) = v"
proof -
  have s: "\<And>w::uint64. w = ucast (ucast w :: byte) OR push_bit 8 (drop_bit 8 w)"
    by (simp add: low_byte_split)
  have "v = ucast (ucast v :: byte) OR push_bit 8 (drop_bit 8 v)" by (rule s)
  also have "drop_bit 8 v = ucast (ucast (drop_bit 8 v) :: byte) OR push_bit 8 (drop_bit 16 v)"
    using s [of "drop_bit 8 v"] by (simp add: drop_bit_drop_bit)
  also have "drop_bit 16 v = ucast (ucast (drop_bit 16 v) :: byte) OR push_bit 8 (drop_bit 24 v)"
    using s [of "drop_bit 16 v"] by (simp add: drop_bit_drop_bit)
  also have "drop_bit 24 v = ucast (ucast (drop_bit 24 v) :: byte) OR push_bit 8 (drop_bit 32 v)"
    using s [of "drop_bit 24 v"] by (simp add: drop_bit_drop_bit)
  also have "drop_bit 32 v = ucast (ucast (drop_bit 32 v) :: byte) OR push_bit 8 (drop_bit 40 v)"
    using s [of "drop_bit 32 v"] by (simp add: drop_bit_drop_bit)
  also have "drop_bit 40 v = ucast (ucast (drop_bit 40 v) :: byte) OR push_bit 8 (drop_bit 48 v)"
    using s [of "drop_bit 40 v"] by (simp add: drop_bit_drop_bit)
  also have "drop_bit 48 v = ucast (ucast (drop_bit 48 v) :: byte) OR push_bit 8 (drop_bit 56 v)"
    using s [of "drop_bit 48 v"] by (simp add: drop_bit_drop_bit)
  also have "drop_bit 56 v = ucast (ucast (drop_bit 56 v) :: byte)"
    by (simp add: top_byte)
  finally have "v = ucast (ucast v :: byte) OR
     push_bit 8 (ucast (ucast (drop_bit 8 v) :: byte)) OR
     push_bit 16 (ucast (ucast (drop_bit 16 v) :: byte)) OR
     push_bit 24 (ucast (ucast (drop_bit 24 v) :: byte)) OR
     push_bit 32 (ucast (ucast (drop_bit 32 v) :: byte)) OR
     push_bit 40 (ucast (ucast (drop_bit 40 v) :: byte)) OR
     push_bit 48 (ucast (ucast (drop_bit 48 v) :: byte)) OR
     push_bit 56 (ucast (ucast (drop_bit 56 v) :: byte))"
    by (simp add: push_bit_or or.assoc)
  then show ?thesis by (rule sym)
qed

lemma Uint64_PutUint64: "Uint64 rocksEndian (PutUint64 rocksEndian v) = v"
proof (cases rocksEndian)
  case LittleEndian
  then show ?thesis using bytes_join [of v] by simp
next
  case BigEndian
  then show ?thesis using bytes_join [of v] by simp
qed

lemma length_PutUint64: "length (PutUint64 rocksEndian v) = 8"
  by (cases rocksEndian) simp_all

subsection \<open>Packing a sequence number and a value type\<close>

lemma seq_bits: "unat (a::uint64) < 2 ^ 56 \<Longrightarrow> bit a n \<Longrightarrow> n < 56"
proof -
  assume a: "unat a < 2 ^ 56" and b: "bit a n"
  from a have "take_bit 56 (unat a) = unat a" by (simp add: take_bit_nat_eq_self)
  moreover from b have "bit (unat a) n" by (simp add: bit_unsigned_iff)
  ultimately have "bit (take_bit 56 (unat a)) n" by simp
  then show ?thesis by (simp add: bit_take_bit_iff)
qed

lemma unpack_seq:
  "unat (a::uint64) < 2 ^ 56 \<Longrightarrow> drop_bit 8 (push_bit 8 a OR ucast (t::byte)) = a"
  apply (rule bit_word_eqI)
  subgoal for n
    using seq_bits [of a n] bit_imp_le_length [of t "8 + n"]
    by (auto simp add: bit_simps)
  done

lemma unpack_type: "ucast ((push_bit 8 (s::uint64) OR ucast (t::byte)) AND 0xff) = t"
proof -
  have m: "(0xff::uint64) = mask 8" by (simp add: mask_eq_exp_minus_1)
  show ?thesis
    unfolding m
    by (rule bit_word_eqI) (auto simp add: bit_simps)
qed



lemma Decode_Encode:
  assumes a: "unat (SequenceNumber ikey) < 2 ^ 56"
  shows "Decode rocksEndian ikey0 (Encode rocksEndian ikey) =
     Inr (ikey0\<lparr>UserKey := UserKey ikey, ValueType := ValueType ikey,
               SequenceNumber := SequenceNumber ikey\<rparr>)"
proof -
  have len: "length (Encode rocksEndian ikey) = length (UserKey ikey) + 8"
    by (simp add: Encode_def length_PutUint64)
  have tk: "take (length (UserKey ikey)) (Encode rocksEndian ikey) = UserKey ikey"
    by (simp add: Encode_def)
  have dr: "drop (length (UserKey ikey)) (Encode rocksEndian ikey)
      = PutUint64 rocksEndian (packSeqAndType ikey)"
    by (simp add: Encode_def)
  have sq: "drop_bit 8 (packSeqAndType ikey) = SequenceNumber ikey"
    unfolding packSeqAndType_def by (rule unpack_seq [OF a])
  have ty: "ucast (packSeqAndType ikey AND 0xff) = ValueType ikey"
    unfolding packSeqAndType_def by (rule unpack_type)
  show ?thesis
    by (simp add: Decode_def len tk dr Uint64_PutUint64 unpackSeqAndType_def sq ty)
qed


subsection \<open>Claims on the codec\<close>

text \<open>
  C9. \<open>IsValue\<close> returns true for every defined value type: Deletion (0), Value (1) and
  Merge (2), Deletion included.
\<close>

theorem IsValue_every_defined_type:
  "IsValue TypeDeletion \<and> IsValue TypeValue \<and> IsValue TypeMerge"
  by (simp add: IsValue_def TypeDeletion_def TypeValue_def TypeMerge_def)

text \<open>
  C2. Round trip: for every user key, every sequence number below \<open>2 ^ 56\<close> and every
  value type among Deletion, Value and Merge, decoding the encoding of the internal key
  gives back the same triple, whatever the receiver of \<open>Decode\<close> held before.
\<close>

theorem Decode_Encode_roundtrip:
  "unat seq < 2 ^ 56 \<Longrightarrow> vt \<in> {TypeDeletion, TypeValue, TypeMerge} \<Longrightarrow>
   Decode rocksEndian ikey0
     (Encode rocksEndian \<lparr>UserKey = uk, SequenceNumber = seq, ValueType = vt\<rparr>) =
   Inr \<lparr>UserKey = uk, SequenceNumber = seq, ValueType = vt\<rparr>"
  by (simp add: Decode_Encode)

theorem Decode_Encode_roundtrip_witness:
  "unat (7::uint64) < 2 ^ 56 \<and> TypeValue \<in> {TypeDeletion, TypeValue, TypeMerge} \<and>
   Decode LittleEndian \<lparr>UserKey = [9], SequenceNumber = 0, ValueType = 0\<rparr>
     (Encode LittleEndian \<lparr>UserKey = [1, 2, 3], SequenceNumber = 7, ValueType = TypeValue\<rparr>) =
   Inr \<lparr>UserKey = [1, 2, 3], SequenceNumber = 7, ValueType = TypeValue\<rparr>"
proof -
  have h1: "unat (7::uint64) < 2 ^ 56" by simp
  have h2: "TypeValue \<in> {TypeDeletion, TypeValue, TypeMerge}" by simp
  from h1 h2 Decode_Encode_roundtrip [OF h1 h2] show ?thesis by blast
qed




section \<open>Properties of the registry\<close>

lemma registry_notifyStats: "registry (notifyStats sm) = registry sm"
  by (simp add: notifyStats_def split: option.splits)

lemma first_index_None: "(first_index es e = None) = (e \<notin> set es)"
  by (induction es) auto

lemma first_index_Some:
  "first_index es e = Some i \<Longrightarrow> take i es @ drop (i + 1) es = remove1 e es"
  by (induction es arbitrary: i) (auto split: if_splits)

lemma registry_Register:
  "registry (Register k e sm) =
     (case registry sm k of
        Some es \<Rightarrow> if e \<in> set es then registry sm else (registry sm)(k \<mapsto> es @ [e])
      | None \<Rightarrow> (registry sm)(k \<mapsto> [e]))"
  by (simp add: Register_def registry_notifyStats split: option.splits)

lemma registry_Deregister:
  "registry (Deregister k e sm) =
     (case registry sm k of
        Some es \<Rightarrow>
          if e \<in> set es then
            (if remove1 e es = [] then (registry sm)(k := None)
             else (registry sm)(k \<mapsto> remove1 e es))
          else registry sm
      | None \<Rightarrow> registry sm)"
proof (cases "registry sm k")
  case None
  then show ?thesis by (simp add: Deregister_def)
next
  case (Some es)
  show ?thesis
  proof (cases "first_index es e")
    case None
    then have "e \<notin> set es" by (simp add: first_index_None)
    with Some None show ?thesis by (simp add: Deregister_def)
  next
    case (Some i)
    then have m: "e \<in> set es" using first_index_None [of es e] by auto
    from Some have r: "take i es @ drop (Suc i) es = remove1 e es"
      using first_index_Some [of es e i] by simp
    from \<open>registry sm k = Some es\<close> Some m r show ?thesis
      by (simp add: Deregister_def registry_notifyStats)
  qed
qed

lemma registry_inv_Register: "registry_inv (registry sm) \<Longrightarrow> registry_inv (registry (Register k e sm))"
  by (auto simp add: registry_inv_def registry_Register split: option.splits if_splits)

lemma registry_inv_Deregister:
  "registry_inv (registry sm) \<Longrightarrow> registry_inv (registry (Deregister k e sm))"
  by (auto simp add: registry_inv_def registry_Deregister split: option.splits if_splits)

lemma registry_inv_fold:
  "registry_inv (registry sm) \<Longrightarrow> registry_inv (registry (fold apply_op ops sm))"
proof (induction ops arbitrary: sm)
  case Nil
  then show ?case by simp
next
  case (Cons a ops)
  then show ?case
    by (cases a) (simp_all add: registry_inv_Register registry_inv_Deregister)
qed

lemma registry_inv_run_ops: "registry_inv (registry (run_ops ops (Build smb path rt)))"
  unfolding run_ops_def
  by (rule registry_inv_fold) (simp add: registry_inv_def Build_def)

lemma Register_twice: "Register k e (Register k e sm) = Register k e sm"
  by (simp add: Register_def notifyStats_def split: option.splits)

lemma remove1_empty_iff: "distinct es \<Longrightarrow> (remove1 e es = []) = (set es \<subseteq> {e})"
proof -
  assume d: "distinct es"
  have "(remove1 e es = []) = (set (remove1 e es) = {})" by simp
  also have "\<dots> = (set es - {e} = {})" using d by (simp only: set_remove1_eq)
  also have "\<dots> = (set es \<subseteq> {e})" by auto
  finally show ?thesis .
qed

lemma count_list_distinct: "distinct es \<Longrightarrow> e \<in> set es \<Longrightarrow> count_list es e = 1"
  by (induction es) auto

subsection \<open>Claims on the registry\<close>

text \<open>
  C5, as stated, fails: \<open>Register(k, e)\<close> followed by \<open>Deregister(k, e)\<close> does not leave
  \<open>HasRegistered(k) = false\<close> in every registry state. When \<open>k\<close> already holds the
  entry Sending, registering and deregistering Generating leaves \<open>k\<close> registered.
\<close>

theorem Register_Deregister_other_entry_counterexample:
  "HasRegistered
     (Deregister \<lparr>RegionID = 1, Term = 1, Index = 1\<rparr> SnapEntryGenerating
       (Register \<lparr>RegionID = 1, Term = 1, Index = 1\<rparr> SnapEntryGenerating
         (Register \<lparr>RegionID = 1, Term = 1, Index = 1\<rparr> SnapEntrySending
           (NewSnapManager ''snap'' None))))
     \<lparr>RegionID = 1, Term = 1, Index = 1\<rparr>"
  by (simp add: HasRegistered_def registry_Deregister registry_Register NewSnapManager_def
      Build_def SnapEntryGenerating_def SnapEntrySending_def)

text \<open>
  C5, amended. In every registry state whose entry list for \<open>k\<close> has no repeated
  entry (as in every state reached from the constructor), after \<open>Register(k, e)\<close>
  followed by \<open>Deregister(k, e)\<close> the key \<open>k\<close> is registered exactly when it held an
  entry other than \<open>e\<close> before; so \<open>HasRegistered(k)\<close> is false when \<open>k\<close> was
  unregistered or held \<open>e\<close> alone.
\<close>

theorem Register_Deregister_HasRegistered:
  "(\<forall>es. registry sm k = Some es \<longrightarrow> distinct es) \<Longrightarrow>
   HasRegistered (Deregister k e (Register k e sm)) k =
     (\<exists>es e'. registry sm k = Some es \<and> e' \<in> set es \<and> e' \<noteq> e)"
proof (cases "registry sm k")
  case None
  then show ?thesis
    by (simp add: HasRegistered_def registry_Deregister registry_Register)
next
  case (Some es)
  assume "\<forall>es. registry sm k = Some es \<longrightarrow> distinct es"
  with Some have d: "distinct es" by simp
  show ?thesis
  proof (cases "e \<in> set es")
    case True
    with Some d show ?thesis
      by (auto simp add: HasRegistered_def registry_Deregister registry_Register
          remove1_empty_iff)
  next
    case False
    with d have d2: "distinct (es @ [e])" by simp
    from Some False show ?thesis
      by (auto simp add: HasRegistered_def registry_Deregister registry_Register
          remove1_empty_iff [OF d2])
  qed
qed

theorem Register_Deregister_HasRegistered_witness:
  "registry (Register \<lparr>RegionID = 1, Term = 1, Index = 1\<rparr> SnapEntrySending
       (NewSnapManager ''snap'' None)) \<lparr>RegionID = 1, Term = 1, Index = 1\<rparr>
     = Some [SnapEntrySending] \<and>
   distinct [SnapEntrySending] \<and>
   \<not> HasRegistered
     (Deregister \<lparr>RegionID = 1, Term = 1, Index = 1\<rparr> SnapEntrySending
       (Register \<lparr>RegionID = 1, Term = 1, Index = 1\<rparr> SnapEntrySending
         (Register \<lparr>RegionID = 1, Term = 1, Index = 1\<rparr> SnapEntrySending
           (NewSnapManager ''snap'' None))))
     \<lparr>RegionID = 1, Term = 1, Index = 1\<rparr>"
proof -
  let ?k = "\<lparr>RegionID = 1, Term = 1, Index = 1\<rparr>"
  let ?sm = "Register ?k SnapEntrySending (NewSnapManager ''snap'' None)"
  have r: "registry ?sm ?k = Some [SnapEntrySending]"
    by (simp add: registry_Register NewSnapManager_def Build_def)
  then have h: "\<forall>es. registry ?sm ?k = Some es \<longrightarrow> distinct es" by simp
  from Register_Deregister_HasRegistered [OF h, of SnapEntrySending] r
  show ?thesis by simp
qed

text \<open>
  C6. In every registry state reached from the constructor by \<open>Register\<close> and
  \<open>Deregister\<close>, no key's entry list holds the same entry twice. Calling
  \<open>Register(k, e)\<close> a second time changes nothing in the manager, and afterwards the
  list of \<open>k\<close> holds \<open>e\<close> exactly once.
\<close>

theorem registry_no_duplicates:
  "(\<forall>k es. registry (run_ops ops (Build smb path rt)) k = Some es \<longrightarrow> distinct es) \<and>
   Register k e (Register k e (run_ops ops (Build smb path rt)))
     = Register k e (run_ops ops (Build smb path rt)) \<and>
   (\<exists>es. registry (Register k e (Register k e (run_ops ops (Build smb path rt)))) k = Some es \<and>
      count_list es e = 1)"
proof -
  let ?sm = "run_ops ops (Build smb path rt)"
  have inv: "registry_inv (registry ?sm)" by (rule registry_inv_run_ops)
  then have "registry_inv (registry (Register k e ?sm))" by (rule registry_inv_Register)
  then have d: "\<And>es. registry (Register k e ?sm) k = Some es \<Longrightarrow> distinct es"
    by (simp add: registry_inv_def)
  have m: "\<exists>es. registry (Register k e ?sm) k = Some es \<and> e \<in> set es"
    by (auto simp add: registry_Register split: option.splits)
  then obtain es where es: "registry (Register k e ?sm) k = Some es" "e \<in> set es" by blast
  with d have "count_list es e = 1" by (simp add: count_list_distinct)
  with es inv show ?thesis by (auto simp add: Register_twice registry_inv_def)
qed

theorem registry_no_duplicates_witness:
  "registry (run_ops [OpRegister \<lparr>RegionID = 1, Term = 1, Index = 1\<rparr> 1,
                      OpRegister \<lparr>RegionID = 1, Term = 1, Index = 1\<rparr> 2,
                      OpDeregister \<lparr>RegionID = 1, Term = 1, Index = 1\<rparr> 1]
       (Build \<lparr>maxTotalSize = 0\<rparr> ''snap'' (Some 0))) \<lparr>RegionID = 1, Term = 1, Index = 1\<rparr>
     = Some [2] \<and>
   distinct [2 :: SnapEntry] \<and>
   registry (Register \<lparr>RegionID = 1, Term = 1, Index = 1\<rparr> 2
     (Register \<lparr>RegionID = 1, Term = 1, Index = 1\<rparr> 2
       (run_ops [OpRegister \<lparr>RegionID = 1, Term = 1, Index = 1\<rparr> 1,
                 OpRegister \<lparr>RegionID = 1, Term = 1, Index = 1\<rparr> 2,
                 OpDeregister \<lparr>RegionID = 1, Term = 1, Index = 1\<rparr> 1]
         (Build \<lparr>maxTotalSize = 0\<rparr> ''snap'' (Some 0)))))
     \<lparr>RegionID = 1, Term = 1, Index = 1\<rparr> = Some [2] \<and>
   count_list [2 :: SnapEntry] 2 = 1"
  using registry_no_duplicates [of
      "[OpRegister \<lparr>RegionID = 1, Term = 1, Index = 1\<rparr> 1,
        OpRegister \<lparr>RegionID = 1, Term = 1, Index = 1\<rparr> 2,
        OpDeregister \<lparr>RegionID = 1, Term = 1, Index = 1\<rparr> 1]"
      "\<lparr>maxTotalSize = 0\<rparr>" "''snap''" "Some 0" "\<lparr>RegionID = 1, Term = 1, Index = 1\<rparr>" 2]
  by (simp add: run_ops_def registry_Register registry_Deregister Build_def)

text \<open>
  C10. In every manager state whose registry is one reached from the constructor by
  \<open>Register\<close> and \<open>Deregister\<close>, no key is mapped to an empty entry list; so
  \<open>HasRegistered(k)\<close> holds exactly when \<open>k\<close> has at least one entry, and
  \<open>DeleteSnapshot\<close> gives the same result and the same state with \<open>checkEntry\<close> true and
  false.
\<close>

theorem registry_no_empty_entry_list:
  "registry sm = registry (run_ops ops (Build smb path rt)) \<Longrightarrow>
   (\<forall>k. registry sm k \<noteq> Some []) \<and>
   (\<forall>k. HasRegistered sm k = (\<exists>es. registry sm k = Some es \<and> es \<noteq> [])) \<and>
   (\<forall>k snapshot. DeleteSnapshot k snapshot True sm = DeleteSnapshot k snapshot False sm)"
  using registry_inv_run_ops [of ops smb path rt]
  by (auto simp add: registry_inv_def HasRegistered_def DeleteSnapshot_def split: option.splits)

theorem registry_no_empty_entry_list_witness:
  "registry (Register \<lparr>RegionID = 1, Term = 1, Index = 1\<rparr> 2
       (Build \<lparr>maxTotalSize = 0\<rparr> ''snap'' None)) \<lparr>RegionID = 1, Term = 1, Index = 1\<rparr>
     = Some [2] \<and>
   HasRegistered (Register \<lparr>RegionID = 1, Term = 1, Index = 1\<rparr> 2
       (Build \<lparr>maxTotalSize = 0\<rparr> ''snap'' None)) \<lparr>RegionID = 1, Term = 1, Index = 1\<rparr> \<and>
   DeleteSnapshot \<lparr>RegionID = 1, Term = 1, Index = 1\<rparr>
       \<lparr>Path = ''gen_1_1_1'', Meta = Inl (IOError ''stat''), Exists = True, TotalSize = 100\<rparr> True
       (Register \<lparr>RegionID = 1, Term = 1, Index = 1\<rparr> 2
         (Build \<lparr>maxTotalSize = 0\<rparr> ''snap'' None)) =
   DeleteSnapshot \<lparr>RegionID = 1, Term = 1, Index = 1\<rparr>
       \<lparr>Path = ''gen_1_1_1'', Meta = Inl (IOError ''stat''), Exists = True, TotalSize = 100\<rparr> False
       (Register \<lparr>RegionID = 1, Term = 1, Index = 1\<rparr> 2
         (Build \<lparr>maxTotalSize = 0\<rparr> ''snap'' None))"
proof -
  let ?k = "\<lparr>RegionID = 1, Term = 1, Index = 1\<rparr>"
  let ?b = "Build \<lparr>maxTotalSize = 0\<rparr> ''snap'' None"
  let ?sm = "Register ?k 2 ?b"
  have h: "registry ?sm = registry (run_ops [OpRegister ?k 2] ?b)"
    by (simp add: run_ops_def)
  have r: "registry ?sm ?k = Some [2]"
    by (simp add: registry_Register Build_def)
  from registry_no_empty_entry_list [OF h] r show ?thesis by simp
qed

section \<open>Properties of bootstrapping\<close>

text \<open>
  C7. On a fresh store, one without the store identity key, \<open>BootstrapStore\<close> succeeds;
  a second call with the same arguments returns the "already bootstrapped" error and
  leaves the engines as the first call left them.
\<close>

theorem BootstrapStore_second_call_fails:
  "kv engines (storeIdentKey benv) = None \<Longrightarrow>
   fst (BootstrapStore benv engines clusterID storeID) = None \<and>
   fst (BootstrapStore benv (snd (BootstrapStore benv engines clusterID storeID)) clusterID storeID)
     = Some AlreadyBootstrapped \<and>
   snd (BootstrapStore benv (snd (BootstrapStore benv engines clusterID storeID)) clusterID storeID)
     = snd (BootstrapStore benv engines clusterID storeID)"
  by (simp add: BootstrapStore_def)

theorem BootstrapStore_second_call_fails_witness:
  "kv \<lparr>kv = Map.empty, raft = Map.empty\<rparr>
     (storeIdentKey \<lparr>storeIdentKey = [1], encodeStoreIdent = (\<lambda>c s. [ucast c, ucast s])\<rparr>) = None \<and>
   fst (BootstrapStore \<lparr>storeIdentKey = [1], encodeStoreIdent = (\<lambda>c s. [ucast c, ucast s])\<rparr>
          \<lparr>kv = Map.empty, raft = Map.empty\<rparr> 1 1) = None \<and>
   fst (BootstrapStore \<lparr>storeIdentKey = [1], encodeStoreIdent = (\<lambda>c s. [ucast c, ucast s])\<rparr>
          (snd (BootstrapStore
             \<lparr>storeIdentKey = [1], encodeStoreIdent = (\<lambda>c s. [ucast c, ucast s])\<rparr>
             \<lparr>kv = Map.empty, raft = Map.empty\<rparr> 1 1)) 1 1) = Some AlreadyBootstrapped \<and>
   snd (BootstrapStore \<lparr>storeIdentKey = [1], encodeStoreIdent = (\<lambda>c s. [ucast c, ucast s])\<rparr>
          (snd (BootstrapStore
             \<lparr>storeIdentKey = [1], encodeStoreIdent = (\<lambda>c s. [ucast c, ucast s])\<rparr>
             \<lparr>kv = Map.empty, raft = Map.empty\<rparr> 1 1)) 1 1) =
   snd (BootstrapStore \<lparr>storeIdentKey = [1], encodeStoreIdent = (\<lambda>c s. [ucast c, ucast s])\<rparr>
          \<lparr>kv = Map.empty, raft = Map.empty\<rparr> 1 1)"
proof -
  let ?benv = "\<lparr>storeIdentKey = [1], encodeStoreIdent = (\<lambda>c s. [ucast c, ucast s])\<rparr>"
  let ?e = "\<lparr>kv = Map.empty, raft = Map.empty\<rparr>"
  have h: "kv ?e (storeIdentKey ?benv) = None" by simp
  from h BootstrapStore_second_call_fails [OF h, of 1 1] show ?thesis by simp
qed


section \<open>Properties of the sort\<close>

lemma set_sift: "set (sift lt x ps) = insert x (set ps)"
  by (induction ps) auto

lemma sorted_sift:
  assumes tr: "\<And>a b c. R a b \<Longrightarrow> R b c \<Longrightarrow> R a c"
    and lt1: "\<And>a b. lt a b \<Longrightarrow> R b a"
    and lt2: "\<And>a b. \<not> lt a b \<Longrightarrow> R a b"
    and srt: "sorted_wrt R ps"
  shows "sorted_wrt R (sift lt x ps)"
  using srt
proof (induction ps)
  case Nil
  then show ?case by simp
next
  case (Cons p ps)
  show ?case
  proof (cases "lt x p")
    case True
    then have "R p x" by (rule lt1)
    with Cons True show ?thesis by (auto simp add: set_sift)
  next
    case False
    then have px: "R x p" by (rule lt2)
    have "\<forall>y\<in>set ps. R x y"
    proof
      fix y assume "y \<in> set ps"
      with Cons.prems have "R p y" by simp
      with px show "R x y" by (rule tr)
    qed
    with Cons.prems px False show ?thesis by simp
  qed
qed

lemma set_foldl_sift: "set (foldl (\<lambda>s x. sift lt x s) acc xs) = set acc \<union> set xs"
  by (induction xs arbitrary: acc) (auto simp add: set_sift)

lemma sorted_foldl_sift:
  assumes tr: "\<And>a b c. R a b \<Longrightarrow> R b c \<Longrightarrow> R a c"
    and lt1: "\<And>a b. lt a b \<Longrightarrow> R b a"
    and lt2: "\<And>a b. \<not> lt a b \<Longrightarrow> R a b"
    and srt: "sorted_wrt R acc"
  shows "sorted_wrt R (foldl (\<lambda>s x. sift lt x s) acc xs)"
  using srt
proof (induction xs arbitrary: acc)
  case Nil
  then show ?case by simp
next
  case (Cons x xs)
  have "sorted_wrt R (sift lt x acc)"
    using tr lt1 lt2 Cons.prems by (rule sorted_sift)
  then have "sorted_wrt R (foldl (\<lambda>s x. sift lt x s) (sift lt x acc) xs)"
    by (rule Cons.IH)
  then show ?case by simp
qed

lemma set_insertionSort: "set (insertionSort_func lt xs) = set xs"
  by (simp add: insertionSort_func_def set_foldl_sift)

lemma sorted_insertionSort:
  assumes tr: "\<And>a b c. le a b \<Longrightarrow> le b c \<Longrightarrow> le a c"
    and lt1: "\<And>a b. lt a b \<Longrightarrow> le a b"
    and lt2: "\<And>a b. \<not> lt a b \<Longrightarrow> le b a"
  shows "sorted_wrt le (insertionSort_func lt xs)"
proof -
  define R where "R = (\<lambda>a b. le b a)"
  have tr': "\<And>a b c. R a b \<Longrightarrow> R b c \<Longrightarrow> R a c"
    unfolding R_def using tr by blast
  have l1: "\<And>a b. lt a b \<Longrightarrow> R b a" unfolding R_def by (rule lt1)
  have l2: "\<And>a b. \<not> lt a b \<Longrightarrow> R a b" unfolding R_def by (rule lt2)
  have e: "sorted_wrt R []" by simp
  have "sorted_wrt R (foldl (\<lambda>s x. sift lt x s) [] xs)"
    using tr' l1 l2 e by (rule sorted_foldl_sift)
  then show ?thesis by (simp add: insertionSort_func_def sorted_wrt_rev R_def)
qed

lemma mset_sift: "mset (sift lt x ps) = add_mset x (mset ps)"
  by (induction ps) auto

lemma mset_foldl_sift: "mset (foldl (\<lambda>s x. sift lt x s) acc xs) = mset acc + mset xs"
  by (induction xs arbitrary: acc) (auto simp add: mset_sift)

lemma mset_insertionSort: "mset (insertionSort_func lt xs) = mset xs"
  by (simp add: insertionSort_func_def mset_foldl_sift)


text \<open>Under an antisymmetric relation a list has at most one sorted rearrangement.\<close>

lemma sorted_wrt_unique:
  assumes antisym: "\<And>a b. R a b \<Longrightarrow> R b a \<Longrightarrow> a = b"
  shows "sorted_wrt R xs \<Longrightarrow> sorted_wrt R ys \<Longrightarrow> mset xs = mset ys \<Longrightarrow> xs = ys"
proof (induction xs arbitrary: ys)
  case Nil
  then show ?case by simp
next
  case (Cons x xs)
  from Cons.prems(3) obtain y ys' where ys: "ys = y # ys'"
    by (cases ys) auto
  have "x \<in> set ys" using Cons.prems(3) by (metis list.set_intros(1) mset_eq_setD)
  moreover have "y \<in> set (x # xs)" using Cons.prems(3) ys
    by (metis list.set_intros(1) mset_eq_setD)
  ultimately have "x = y"
    using Cons.prems(1,2) ys antisym by auto
  with Cons.prems ys have "sorted_wrt R xs" "sorted_wrt R ys'" "mset xs = mset ys'"
    by simp_all
  then have "xs = ys'" by (rule Cons.IH)
  with \<open>x = y\<close> ys show ?case by simp
qed

section \<open>Properties of listing idle snapshots\<close>

lemma SnapKey_eq_iff:
  "((a::SnapKey) = b) = (RegionID a = RegionID b \<and> Term a = Term b \<and> Index a = Index b)"
  by (auto intro: SnapKey.equality)

lemma SnapKey_less_trans: "SnapKey_less a b \<Longrightarrow> SnapKey_less b c \<Longrightarrow> SnapKey_less a c"
  unfolding SnapKey_less_def
  by (elim disjE conjE) (auto intro: order_less_trans)

lemma idle_before_trans: "idle_before a b \<Longrightarrow> idle_before b c \<Longrightarrow> idle_before a c"
  unfolding idle_before_def
  by (elim disjE conjE) (auto intro: SnapKey_less_trans)

lemma less_idle_before: "ListIdleSnap_less a b \<Longrightarrow> idle_before a b"
  by (auto simp add: ListIdleSnap_less_def idle_before_def SnapKey_less_def SnapKey_eq_iff Let_def split: if_splits)

lemma not_less_idle_before: "\<not> ListIdleSnap_less a b \<Longrightarrow> idle_before b a"
  by (auto simp add: ListIdleSnap_less_def idle_before_def SnapKey_less_def SnapKey_eq_iff Let_def split: if_splits)

lemma sorted_idle: "sorted_wrt idle_before (insertionSort_func ListIdleSnap_less xs)"
  using idle_before_trans less_idle_before not_less_idle_before
  by (rule sorted_insertionSort)


lemma SnapKeyWithSending_eq_iff:
  "((a::SnapKeyWithSending) = b) = (SnapKey a = SnapKey b \<and> IsSending a = IsSending b)"
  by (auto intro: SnapKeyWithSending.equality)

lemma SnapKey_less_asym: "SnapKey_less a b \<Longrightarrow> \<not> SnapKey_less b a"
  unfolding SnapKey_less_def by auto

lemma SnapKey_less_irrefl: "\<not> SnapKey_less a a"
  unfolding SnapKey_less_def by auto

lemma idle_before_antisym: "idle_before a b \<Longrightarrow> idle_before b a \<Longrightarrow> a = b"
  unfolding idle_before_def
  by (auto simp add: SnapKeyWithSending_eq_iff SnapKey_less_irrefl dest: SnapKey_less_asym)

text \<open>
  Every sorted rearrangement of the results is the list that the insertion sort gives:
  the listing does not depend on the algorithm behind \<open>sort.Slice\<close>.
\<close>

lemma sorted_listing_unique:
  assumes "mset ys = mset xs" and "sorted_wrt idle_before ys"
  shows "ys = insertionSort_func ListIdleSnap_less xs"
proof -
  have "mset ys = mset (insertionSort_func ListIdleSnap_less xs)"
    using assms(1) by (simp add: mset_insertionSort)
  with idle_before_antisym assms(2) sorted_idle show ?thesis
    by (rule sorted_wrt_unique)
qed

lemma step_unregistered:
  "ListIdleSnap_step env sm fi = Inr (Some x) \<Longrightarrow> registry sm (SnapKey x) = None"
  by (auto simp add: ListIdleSnap_step_def Let_def split: if_splits sum.splits)

lemma loop_unregistered:
  "ListIdleSnap_loop env sm fis acc = Inr results \<Longrightarrow>
   \<forall>x\<in>set acc. registry sm (SnapKey x) = None \<Longrightarrow>
   \<forall>x\<in>set results. registry sm (SnapKey x) = None"
proof (induction fis arbitrary: acc)
  case Nil
  then show ?case by simp
next
  case (Cons fi fis)
  show ?case
  proof (cases "ListIdleSnap_step env sm fi")
    case (Inl err)
    with Cons.prems show ?thesis by simp
  next
    case (Inr r)
    show ?thesis
    proof (cases r)
      case None
      with Inr Cons.prems have "ListIdleSnap_loop env sm fis acc = Inr results" by simp
      then show ?thesis using Cons.prems(2) by (rule Cons.IH)
    next
      case (Some k)
      with Inr have "registry sm (SnapKey k) = None" by (simp add: step_unregistered)
      with Cons.prems(2) have a: "\<forall>x\<in>set (acc @ [k]). registry sm (SnapKey x) = None" by simp
      from Some Inr Cons.prems have "ListIdleSnap_loop env sm fis (acc @ [k]) = Inr results"
        by simp
      then show ?thesis using a by (rule Cons.IH)
    qed
  qed
qed


lemma ListIdleSnap_cases:
  "ListIdleSnap env sm = Inr results \<Longrightarrow>
   \<exists>fis rs. ReadDir env = Inr fis \<and> ListIdleSnap_loop env sm fis [] = Inr rs \<and>
     results = insertionSort_func ListIdleSnap_less rs"
  by (auto simp add: ListIdleSnap_def split: sum.splits)

lemma ListIdleSnap_unregistered:
  assumes "ListIdleSnap env sm = Inr results"
  shows "\<forall>x\<in>set results. registry sm (SnapKey x) = None"
proof -
  from assms obtain fis rs where l: "ListIdleSnap_loop env sm fis [] = Inr rs"
    and r: "results = insertionSort_func ListIdleSnap_less rs"
    using ListIdleSnap_cases by blast
  have "\<forall>x\<in>set rs. registry sm (SnapKey x) = None"
    using l by (rule loop_unregistered) simp
  then show ?thesis by (simp add: r set_insertionSort)
qed

subsection \<open>Claim on the listing\<close>

text \<open>
  C4. Whatever the directory and the registry hold, a list returned by \<open>ListIdleSnap\<close>
  has no key that is in the registry, and it is sorted by region, term and index,
  ascending; among entries with the same key a receiving-side entry never stands after
  a sending-side one.
\<close>

theorem ListIdleSnap_unregistered_sorted:
  "ListIdleSnap env sm = Inr results \<Longrightarrow>
   (\<forall>x\<in>set results. \<not> HasRegistered sm (SnapKey x)) \<and> sorted_wrt idle_before results"
proof
  assume a: "ListIdleSnap env sm = Inr results"
  from ListIdleSnap_unregistered [OF a]
  show "\<forall>x\<in>set results. \<not> HasRegistered sm (SnapKey x)"
    by (simp add: HasRegistered_def)
  from a obtain rs where "results = insertionSort_func ListIdleSnap_less rs"
    using ListIdleSnap_cases by blast
  then show "sorted_wrt idle_before results" by (simp add: sorted_idle)
qed

theorem ListIdleSnap_unregistered_sorted_witness:
  "ListIdleSnap example_env (Register (example_key 3) SnapEntrySending example_sm) =
     Inr [\<lparr>SnapKey = example_key 1, IsSending = False\<rparr>,
          \<lparr>SnapKey = example_key 1, IsSending = True\<rparr>,
          \<lparr>SnapKey = example_key 2, IsSending = True\<rparr>] \<and>
   HasRegistered (Register (example_key 3) SnapEntrySending example_sm) (example_key 3) \<and>
   \<not> HasRegistered (Register (example_key 3) SnapEntrySending example_sm) (example_key 1) \<and>
   \<not> HasRegistered (Register (example_key 3) SnapEntrySending example_sm) (example_key 2) \<and>
   sorted_wrt idle_before
     [\<lparr>SnapKey = example_key 1, IsSending = False\<rparr>,
      \<lparr>SnapKey = example_key 1, IsSending = True\<rparr>,
      \<lparr>SnapKey = example_key 2, IsSending = True\<rparr>]"
proof -
  let ?sm = "Register (example_key 3) SnapEntrySending example_sm"
  have r: "registry ?sm = (Map.empty)(example_key 3 \<mapsto> [SnapEntrySending])"
    by (simp add: registry_Register example_sm_def Build_def)
  have h: "ListIdleSnap example_env ?sm =
     Inr [\<lparr>SnapKey = example_key 1, IsSending = False\<rparr>,
          \<lparr>SnapKey = example_key 1, IsSending = True\<rparr>,
          \<lparr>SnapKey = example_key 2, IsSending = True\<rparr>]"
    by (simp add: ListIdleSnap_def ListIdleSnap_step_def r [unfolded example_key_def]
        example_env_def example_file_def example_key_def HasSuffix_def HasPrefix_def
        ParseUint_def insertionSort_func_def ListIdleSnap_less_def Let_def)
  have g: "HasRegistered ?sm (example_key 3)"
    by (simp add: HasRegistered_def r)
  from ListIdleSnap_unregistered_sorted [OF h] h g show ?thesis by simp
qed


section \<open>Properties of quota eviction\<close>





lemma MaxTotalSize_after_deleting: "MaxTotalSize (after_deleting n snaps sm) = MaxTotalSize sm"
  by (simp add: after_deleting_def)



lemma collect_snaps_append:
  "collect_snaps env (xs @ ys) acc =
     (case collect_snaps env xs acc of Inl e \<Rightarrow> Inl e | Inr acc1 \<Rightarrow> collect_snaps env ys acc1)"
  by (induction xs arbitrary: acc) (simp_all split: sum.splits)





subsection \<open>The concrete scenario, evaluated\<close>






lemma example_open_fails_listing:
  "ListIdleSnap example_env_open_fails example_sm =
     Inr ([\<lparr>SnapKey = example_key 1, IsSending = False\<rparr>,
           \<lparr>SnapKey = example_key 1, IsSending = True\<rparr>] @
          \<lparr>SnapKey = example_key 2, IsSending = True\<rparr> #
          [\<lparr>SnapKey = example_key 3, IsSending = True\<rparr>])"
  by (simp add: ListIdleSnap_def ListIdleSnap_step_def example_sm_def Build_def
        example_env_open_fails_def
        example_env_def example_file_def example_key_def HasSuffix_def HasPrefix_def
        ParseUint_def insertionSort_func_def ListIdleSnap_less_def Let_def)

lemma example_meta_fails_listing:
  "ListIdleSnap example_env_meta_fails example_sm =
     Inr ([\<lparr>SnapKey = example_key 1, IsSending = False\<rparr>,
           \<lparr>SnapKey = example_key 1, IsSending = True\<rparr>] @
          \<lparr>SnapKey = example_key 2, IsSending = True\<rparr> #
          [\<lparr>SnapKey = example_key 3, IsSending = True\<rparr>])"
  by (simp add: ListIdleSnap_def ListIdleSnap_step_def example_sm_def Build_def
        example_env_meta_fails_def
        example_env_def example_file_def example_key_def HasSuffix_def HasPrefix_def
        ParseUint_def insertionSort_func_def ListIdleSnap_less_def Let_def)

lemma example_open_fails_candidates:
  "eviction_candidates example_env_open_fails example_sm =
     Inr [\<lparr>swm_key = example_key 3, swm_snap = example_snap ''gen_3_1_1'' 20, swm_modTime = 20\<rparr>,
          \<lparr>swm_key = example_key 1, swm_snap = example_snap ''gen_1_1_1'' 30, swm_modTime = 30\<rparr>]"
  unfolding eviction_candidates_def example_open_fails_listing
  by (simp add: GetSnapshotForSending_def example_env_open_fails_def example_env_def
      example_key_def example_snap_def example_file_def insertionSort_func_def modTime_Before_def)

lemma example_open_fails_evict_loop:
  "evict_loop
     [\<lparr>swm_key = example_key 3, swm_snap = example_snap ''gen_3_1_1'' 20, swm_modTime = 20\<rparr>,
      \<lparr>swm_key = example_key 1, swm_snap = example_snap ''gen_1_1_1'' 30, swm_modTime = 30\<rparr>]
     example_sm =
   (None, example_sm\<lparr>snapSize := 200, deleted := [example_snap ''gen_3_1_1'' 20]\<rparr>)"
  by (simp add: GetTotalSnapSize_def DeleteSnapshot_def Delete_def example_sm_def Build_def
      example_snap_def)

subsection \<open>Claims on eviction\<close>



text \<open>
  C8, as stated, fails for one of its two kinds of failure. When the sending-role handle
  of a candidate cannot be opened, the pass does not abort with that error: the
  candidate is skipped and the pass goes on to delete the oldest of the others.
\<close>

theorem eviction_open_failure_counterexample:
  "ListIdleSnap example_env_open_fails example_sm =
     Inr ([\<lparr>SnapKey = example_key 1, IsSending = False\<rparr>,
           \<lparr>SnapKey = example_key 1, IsSending = True\<rparr>] @
          \<lparr>SnapKey = example_key 2, IsSending = True\<rparr> #
          [\<lparr>SnapKey = example_key 3, IsSending = True\<rparr>]) \<and>
   GetSnapshotForSending example_env_open_fails (example_key 2)
     = Inl (IOError ''open gen_2_1_1'') \<and>
   deleteOldIdleSnaps example_env_open_fails example_sm =
     (None, example_sm\<lparr>snapSize := 200, deleted := [example_snap ''gen_3_1_1'' 20]\<rparr>) \<and>
   fst (deleteOldIdleSnaps example_env_open_fails example_sm)
     \<noteq> Some (IOError ''open gen_2_1_1'')"
proof -
  have o: "GetSnapshotForSending example_env_open_fails (example_key 2)
      = Inl (IOError ''open gen_2_1_1'')"
    by (simp add: GetSnapshotForSending_def example_env_open_fails_def example_key_def)
  have d: "deleteOldIdleSnaps example_env_open_fails example_sm =
     (None, example_sm\<lparr>snapSize := 200, deleted := [example_snap ''gen_3_1_1'' 20]\<rparr>)"
    by (simp only: deleteOldIdleSnaps_def example_open_fails_candidates sum.case
        example_open_fails_evict_loop)
  have f: "fst (deleteOldIdleSnaps example_env_open_fails example_sm)
     \<noteq> Some (IOError ''open gen_2_1_1'')"
    unfolding d by simp
  from example_open_fails_listing o d f show ?thesis by (intro conjI)
qed

text \<open>
  C8, amended. During quota eviction, the first failure to fetch the file metadata of a
  candidate whose sending-role handle was opened aborts the pass at once with that
  error, before anything is deleted. A failure to open the sending-role handle of a
  candidate does not abort the pass: the candidate is skipped and the pass continues
  exactly as if it had not been listed.
\<close>

theorem eviction_item_failures:
  "ListIdleSnap env sm = Inr (pre @ x # post) \<Longrightarrow> IsSending x \<Longrightarrow>
   (\<forall>s err opened.
      GetSnapshotForSending env (SnapKey x) = Inr s \<and> Meta s = Inl err \<and>
      collect_snaps env pre [] = Inr opened
      \<longrightarrow> deleteOldIdleSnaps env sm = (Some err, sm)) \<and>
   (\<forall>e. GetSnapshotForSending env (SnapKey x) = Inl e
      \<longrightarrow> deleteOldIdleSnaps env sm =
          (case collect_snaps env (pre @ post) [] of
             Inl err \<Rightarrow> (Some err, sm)
           | Inr snaps \<Rightarrow> evict_loop (sortSlice env modTime_Before snaps) sm))"
proof (intro conjI allI impI)
  assume l: "ListIdleSnap env sm = Inr (pre @ x # post)" and x: "IsSending x"
  fix s err opened
  assume "GetSnapshotForSending env (SnapKey x) = Inr s \<and> Meta s = Inl err \<and>
      collect_snaps env pre [] = Inr opened"
  with x have "collect_snaps env (pre @ x # post) [] = Inl err"
    by (simp add: collect_snaps_append)
  with l show "deleteOldIdleSnaps env sm = (Some err, sm)"
    by (simp add: deleteOldIdleSnaps_def eviction_candidates_def)
next
  assume l: "ListIdleSnap env sm = Inr (pre @ x # post)" and x: "IsSending x"
  fix e
  assume "GetSnapshotForSending env (SnapKey x) = Inl e"
  with x have "collect_snaps env (pre @ x # post) [] = collect_snaps env (pre @ post) []"
    by (simp add: collect_snaps_append split: sum.splits)
  with l show "deleteOldIdleSnaps env sm =
          (case collect_snaps env (pre @ post) [] of
             Inl err \<Rightarrow> (Some err, sm)
           | Inr snaps \<Rightarrow> evict_loop (sortSlice env modTime_Before snaps) sm)"
    by (simp add: deleteOldIdleSnaps_def eviction_candidates_def split: sum.splits)
qed

theorem eviction_item_failures_witness:
  "ListIdleSnap example_env_meta_fails example_sm =
     Inr ([\<lparr>SnapKey = example_key 1, IsSending = False\<rparr>,
           \<lparr>SnapKey = example_key 1, IsSending = True\<rparr>] @
          \<lparr>SnapKey = example_key 2, IsSending = True\<rparr> #
          [\<lparr>SnapKey = example_key 3, IsSending = True\<rparr>]) \<and>
   IsSending \<lparr>SnapKey = example_key 2, IsSending = True\<rparr> \<and>
   GetSnapshotForSending example_env_meta_fails (example_key 2) =
     Inr ((example_snap ''gen_2_1_1'' 10)\<lparr>Meta := Inl (IOError ''stat gen_2_1_1'')\<rparr>) \<and>
   Meta ((example_snap ''gen_2_1_1'' 10)\<lparr>Meta := Inl (IOError ''stat gen_2_1_1'')\<rparr>)
     = Inl (IOError ''stat gen_2_1_1'') \<and>
   collect_snaps example_env_meta_fails
     [\<lparr>SnapKey = example_key 1, IsSending = False\<rparr>,
      \<lparr>SnapKey = example_key 1, IsSending = True\<rparr>] [] =
     Inr [\<lparr>swm_key = example_key 1, swm_snap = example_snap ''gen_1_1_1'' 30,
           swm_modTime = 30\<rparr>] \<and>
   deleteOldIdleSnaps example_env_meta_fails example_sm
     = (Some (IOError ''stat gen_2_1_1''), example_sm) \<and>
   ListIdleSnap example_env_open_fails example_sm =
     Inr ([\<lparr>SnapKey = example_key 1, IsSending = False\<rparr>,
           \<lparr>SnapKey = example_key 1, IsSending = True\<rparr>] @
          \<lparr>SnapKey = example_key 2, IsSending = True\<rparr> #
          [\<lparr>SnapKey = example_key 3, IsSending = True\<rparr>]) \<and>
   GetSnapshotForSending example_env_open_fails (example_key 2)
     = Inl (IOError ''open gen_2_1_1'') \<and>
   deleteOldIdleSnaps example_env_open_fails example_sm =
     (None, example_sm\<lparr>snapSize := 200, deleted := [example_snap ''gen_3_1_1'' 20]\<rparr>)"
proof -
  let ?x = "\<lparr>SnapKey = example_key 2, IsSending = True\<rparr>"
  let ?pre = "[\<lparr>SnapKey = example_key 1, IsSending = False\<rparr>,
      \<lparr>SnapKey = example_key 1, IsSending = True\<rparr>]"
  let ?s = "(example_snap ''gen_2_1_1'' 10)\<lparr>Meta := Inl (IOError ''stat gen_2_1_1'')\<rparr>"
  have sx: "IsSending ?x" by simp
  have o1: "GetSnapshotForSending example_env_meta_fails (SnapKey ?x) = Inr ?s"
    by (simp add: GetSnapshotForSending_def example_env_meta_fails_def example_key_def)
  have m1: "Meta ?s = Inl (IOError ''stat gen_2_1_1'')" by simp
  have c1: "collect_snaps example_env_meta_fails ?pre [] =
     Inr [\<lparr>swm_key = example_key 1, swm_snap = example_snap ''gen_1_1_1'' 30,
           swm_modTime = 30\<rparr>]"
    by (simp add: GetSnapshotForSending_def example_env_meta_fails_def example_env_def
        example_key_def example_snap_def example_file_def)
  have o2: "GetSnapshotForSending example_env_open_fails (SnapKey ?x)
      = Inl (IOError ''open gen_2_1_1'')"
    by (simp add: GetSnapshotForSending_def example_env_open_fails_def example_key_def)
  note t1 = eviction_item_failures [OF example_meta_fails_listing sx, THEN conjunct1,
      rule_format, OF conjI [OF o1 conjI [OF m1 c1]]]
  note t2 = eviction_item_failures [OF example_open_fails_listing sx, THEN conjunct2,
      rule_format, OF o2]
  have c2: "collect_snaps example_env_open_fails
      (?pre @ [\<lparr>SnapKey = example_key 3, IsSending = True\<rparr>]) [] =
     Inr [\<lparr>swm_key = example_key 1, swm_snap = example_snap ''gen_1_1_1'' 30, swm_modTime = 30\<rparr>,
          \<lparr>swm_key = example_key 3, swm_snap = example_snap ''gen_3_1_1'' 20, swm_modTime = 20\<rparr>]"
    by (simp add: GetSnapshotForSending_def example_env_open_fails_def example_env_def
        example_key_def example_snap_def example_file_def)
  have srt: "sortSlice example_env_open_fails modTime_Before
      [\<lparr>swm_key = example_key 1, swm_snap = example_snap ''gen_1_1_1'' 30, swm_modTime = 30\<rparr>,
       \<lparr>swm_key = example_key 3, swm_snap = example_snap ''gen_3_1_1'' 20, swm_modTime = 20\<rparr>]
    = [\<lparr>swm_key = example_key 3, swm_snap = example_snap ''gen_3_1_1'' 20, swm_modTime = 20\<rparr>,
       \<lparr>swm_key = example_key 1, swm_snap = example_snap ''gen_1_1_1'' 30, swm_modTime = 30\<rparr>]"
    by (simp add: example_env_open_fails_def example_env_def insertionSort_func_def
        modTime_Before_def)
  from t2 have t2': "deleteOldIdleSnaps example_env_open_fails example_sm =
     (None, example_sm\<lparr>snapSize := 200, deleted := [example_snap ''gen_3_1_1'' 20]\<rparr>)"
    by (simp only: c2 srt example_open_fails_evict_loop sum.case)
  from example_meta_fails_listing sx o1 m1 c1 t1 example_open_fails_listing o2 t2'
  show ?thesis by simp
qed

end
